theory Spec2Isabelle
  imports Main
begin

section \<open>Strings\<close>

text \<open>
  The string operations of the source that the mount ledger and the composition use:
  \<^verbatim>\<open>s.startsWith(p)\<close>, \<^verbatim>\<open>s.endsWith(p)\<close>, \<^verbatim>\<open>s.slice(0, -1)\<close> and \<^verbatim>\<open>s.substring(1)\<close>.
\<close>

definition startsWith :: "string \<Rightarrow> string \<Rightarrow> bool" where
  "startsWith s p = (take (length p) s = p)"

definition endsWith :: "string \<Rightarrow> string \<Rightarrow> bool" where
  "endsWith s p = (length p \<le> length s \<and> drop (length s - length p) s = p)"

definition slice_0_minus1 :: "string \<Rightarrow> string" where
  "slice_0_minus1 s = butlast s"

definition substring_1 :: "string \<Rightarrow> string" where
  "substring_1 s = drop 1 s"

text \<open>A path contains a double slash when two adjacent characters are both \<open>/\<close>.\<close>

fun has_double_slash :: "string \<Rightarrow> bool" where
  "has_double_slash (a # b # s) =
     ((a = CHR ''/'' \<and> b = CHR ''/'') \<or> has_double_slash (b # s))"
| "has_double_slash s = False"

section \<open>Mount ledger\<close>

text \<open>
  What a ledger entry's \<^verbatim>\<open>registry\<close> field (typed \<^verbatim>\<open>any\<close>) can be, as far as the
  composition looks at it: absent (\<^verbatim>\<open>null\<close> or \<^verbatim>\<open>undefined\<close>), an object without a
  \<^verbatim>\<open>definitions\<close> collection, or a registry, given by the reference of its
  \<^verbatim>\<open>definitions\<close> array in the store.
\<close>

datatype registry_value = Absent | NoDefinitions | Registry nat

record MountInfo =
  path :: string
  registry :: registry_value

text \<open>
  \<^verbatim>\<open>registerMount(mountPath, registry)\<close>: the global \<^verbatim>\<open>mountRegistry\<close> array is passed in and
  returned with the new entry pushed.
\<close>

definition registerMount :: "string \<Rightarrow> registry_value \<Rightarrow> MountInfo list \<Rightarrow> MountInfo list" where
  "registerMount mountPath reg mountRegistry =
     (let normalizedPath = mountPath;
          normalizedPath = (if \<not> startsWith normalizedPath ''/''
                            then ''/'' @ normalizedPath else normalizedPath);
          normalizedPath = (if endsWith normalizedPath ''/'' \<and> length normalizedPath > 1
                            then slice_0_minus1 normalizedPath else normalizedPath)
      in mountRegistry @ [\<lparr>path = normalizedPath, registry = reg\<rparr>])"

text \<open>
  The path rewriting of the composition (the same lines in \<^verbatim>\<open>combineRegistries\<close> and in the
  override of \<^verbatim>\<open>generateOpenAPIDocument\<close>): \<open>mountPath\<close> is the ledger entry's path,
  \<open>schemaPath\<close> is \<^verbatim>\<open>def.schema.path\<close>.
\<close>

definition rewritePath :: "string \<Rightarrow> string \<Rightarrow> string" where
  "rewritePath mountPath schemaPath =
     (let routePath = schemaPath;
          routePath = (if startsWith routePath ''/'' then substring_1 routePath else routePath)
      in if mountPath = ''/'' then ''/'' @ routePath else mountPath @ ''/'' @ routePath)"

section \<open>Definitions and registries\<close>

text \<open>
  \<^verbatim>\<open>HttpMethod\<close> of \<^verbatim>\<open>types.ts\<close>; \<open>method_name\<close> is the string the method is in the source
  (what \<^verbatim>\<open>${method}\<close> prints).
\<close>

datatype HttpMethod = Get | Post | Put | Patch | Delete | Options | Head

fun method_name :: "HttpMethod \<Rightarrow> string" where
  "method_name Get = ''get''"
| "method_name Post = ''post''"
| "method_name Put = ''put''"
| "method_name Patch = ''patch''"
| "method_name Delete = ''delete''"
| "method_name Options = ''options''"
| "method_name Head = ''head''"

text \<open>
  A definition object \<^verbatim>\<open>{type, name?, schema}\<close>. A path definition has \<^verbatim>\<open>type === 'path'\<close> and
  a schema holding \<^verbatim>\<open>method\<close>, \<^verbatim>\<open>path\<close> and the operation's metadata; the other definitions
  have their kind as \<^verbatim>\<open>type\<close>, a name or none, and a schema. The payload \<open>'m\<close> (metadata,
  schema fragment) is left open.
\<close>

datatype Kind = SchemaKind | ResponseKind | SecuritySchemeKind

datatype 'm Definition =
    PathDefinition HttpMethod string 'm
  | NamedDefinition Kind string 'm
  | AnonymousDefinition Kind 'm

datatype DefType = TypePath | TypeKind Kind

datatype 'm Schema = PathSchema HttpMethod string 'm | Fragment 'm

fun def_type :: "'m Definition \<Rightarrow> DefType" where
  "def_type (PathDefinition m p md) = TypePath"
| "def_type (NamedDefinition k n s) = TypeKind k"
| "def_type (AnonymousDefinition k s) = TypeKind k"

fun def_name :: "'m Definition \<Rightarrow> string option" where
  "def_name (PathDefinition m p md) = None"
| "def_name (NamedDefinition k n s) = Some n"
| "def_name (AnonymousDefinition k s) = None"

fun def_schema :: "'m Definition \<Rightarrow> 'm Schema" where
  "def_schema (PathDefinition m p md) = PathSchema m p md"
| "def_schema (NamedDefinition k n s) = Fragment s"
| "def_schema (AnonymousDefinition k s) = Fragment s"

text \<open>Truthiness of \<^verbatim>\<open>def.name\<close>: \<^verbatim>\<open>undefined\<close> and the empty string are falsy.\<close>

fun truthy_name :: "string option \<Rightarrow> bool" where
  "truthy_name None = False"
| "truthy_name (Some n) = (n \<noteq> [])"

text \<open>
  The store: definition objects live at addresses (their index in \<open>objects\<close>), and each
  registry's \<^verbatim>\<open>definitions\<close> array is a list of addresses, so that pushing \<^verbatim>\<open>def\<close> itself
  (a shared reference) and pushing a copy are different things.
\<close>

record 'm store =
  objects :: "'m Definition list"
  definitions :: "nat \<Rightarrow> nat list"

definition alloc :: "'m Definition \<Rightarrow> 'm store \<Rightarrow> nat \<times> 'm store" where
  "alloc d st = (length (objects st), st\<lparr>objects := objects st @ [d]\<rparr>)"

definition push :: "nat \<Rightarrow> nat \<Rightarrow> 'm store \<Rightarrow> 'm store" where
  "push r a st = st\<lparr>definitions := (definitions st)(r := definitions st r @ [a])\<rparr>"

fun set_schema_path :: "string \<Rightarrow> 'm Definition \<Rightarrow> 'm Definition" where
  "set_schema_path p' (PathDefinition m p md) = PathDefinition m p' md"
| "set_schema_path p' d = d"

definition assign_schema_path :: "nat \<Rightarrow> string \<Rightarrow> 'm store \<Rightarrow> 'm store" where
  "assign_schema_path a p' st =
     st\<lparr>objects := (objects st)[a := set_schema_path p' (objects st ! a)]\<rparr>"

text \<open>\<^verbatim>\<open>baseDefinitions.some(pred)\<close>, the predicate applied to the objects the array refers to.\<close>

definition some :: "('m Definition \<Rightarrow> bool) \<Rightarrow> nat \<Rightarrow> 'm store \<Rightarrow> bool" where
  "some pred r st = list_ex (\<lambda>a. pred (objects st ! a)) (definitions st r)"

text \<open>The definition objects of a registry, in order.\<close>

definition defs_of :: "'m store \<Rightarrow> nat \<Rightarrow> 'm Definition list" where
  "defs_of st r = map (\<lambda>a. objects st ! a) (definitions st r)"

section \<open>Composition\<close>

text \<open>
  The two built-ins of the composition are parameters: \<open>stringify\<close> is \<^verbatim>\<open>JSON.stringify\<close> on
  a schema, \<open>reparse\<close> is what \<^verbatim>\<open>JSON.parse(JSON.stringify(_))\<close> makes of a payload.

  The test of the root case and of the non-path case:
  \<^verbatim>\<open>baseDef.type === def.type && (def.name ? baseDef.name === def.name
     : JSON.stringify(baseDef.schema) === JSON.stringify(def.schema))\<close>
\<close>

definition same_entry :: "('m Schema \<Rightarrow> string) \<Rightarrow> 'm Definition \<Rightarrow> 'm Definition \<Rightarrow> bool" where
  "same_entry stringify def baseDef =
     (def_type baseDef = def_type def \<and>
      (if truthy_name (def_name def) then def_name baseDef = def_name def
       else stringify (def_schema baseDef) = stringify (def_schema def)))"

text \<open>
  The test of the path case:
  \<^verbatim>\<open>baseDef.type === 'path' && baseDef.schema.path === adjustedDef.schema.path &&
     baseDef.schema.method === adjustedDef.schema.method\<close>
\<close>

fun same_path :: "'m Definition \<Rightarrow> 'm Definition \<Rightarrow> bool" where
  "same_path (PathDefinition am ap amd) (PathDefinition bm bp bmd) = (bp = ap \<and> bm = am)"
| "same_path adjustedDef baseDef = False"

text \<open>Pushing \<^verbatim>\<open>def\<close> itself unless the base has an entry that \<open>same_entry\<close> accepts.\<close>

definition add_if_missing ::
  "('m Schema \<Rightarrow> string) \<Rightarrow> nat \<Rightarrow> nat \<Rightarrow> 'm store \<Rightarrow> 'm store" where
  "add_if_missing stringify base a st =
     (if \<not> some (same_entry stringify (objects st ! a)) base st then push base a st else st)"

text \<open>
  The deep copy \<^verbatim>\<open>JSON.parse(JSON.stringify(def))\<close> of a path definition, a new object, whose
  schema then gets the rewritten path. The result is the address of \<^verbatim>\<open>adjustedDef\<close>.
\<close>

definition adjust :: "('m \<Rightarrow> 'm) \<Rightarrow> string \<Rightarrow> nat \<Rightarrow> 'm store \<Rightarrow> nat \<times> 'm store" where
  "adjust reparse mountPath a st =
     (case objects st ! a of
        PathDefinition m p md \<Rightarrow>
          (let (adjustedDef, st) = alloc (PathDefinition m p (reparse md)) st;
               normalizedPath = rewritePath mountPath p
           in (adjustedDef, assign_schema_path adjustedDef normalizedPath st))
      | _ \<Rightarrow> (a, st))"

text \<open>The callback of \<^verbatim>\<open>registry.definitions.forEach\<close> of \<^verbatim>\<open>combineRegistries\<close>, general case.\<close>

definition combine_def ::
  "('m Schema \<Rightarrow> string) \<Rightarrow> ('m \<Rightarrow> 'm) \<Rightarrow> nat \<Rightarrow> string \<Rightarrow> nat \<Rightarrow> 'm store \<Rightarrow> 'm store" where
  "combine_def stringify reparse base mountPath a st =
     (if def_type (objects st ! a) = TypePath
      then (let (adjustedDef, st) = adjust reparse mountPath a st
            in if \<not> some (same_path (objects st ! adjustedDef)) base st
               then push base adjustedDef st else st)
      else add_if_missing stringify base a st)"

text \<open>
  The callback of \<^verbatim>\<open>mountRegistry.forEach\<close> of \<^verbatim>\<open>combineRegistries\<close>. \<^verbatim>\<open>forEach\<close> visits the
  elements the array had when the loop began, also when the callback pushes to that array.
\<close>

definition combine_entry ::
  "('m Schema \<Rightarrow> string) \<Rightarrow> ('m \<Rightarrow> 'm) \<Rightarrow> nat \<Rightarrow> MountInfo \<Rightarrow> 'm store \<Rightarrow> 'm store" where
  "combine_entry stringify reparse base entry st =
     (case registry entry of
        Registry r \<Rightarrow>
          (if path entry = ''/''
           then fold (add_if_missing stringify base) (definitions st r) st
           else fold (combine_def stringify reparse base (path entry)) (definitions st r) st)
      | _ \<Rightarrow> st)"

definition combineRegistries ::
  "('m Schema \<Rightarrow> string) \<Rightarrow> ('m \<Rightarrow> 'm) \<Rightarrow> nat \<Rightarrow> MountInfo list \<Rightarrow> 'm store \<Rightarrow> 'm store" where
  "combineRegistries stringify reparse baseRegistry mountRegistry st =
     fold (combine_entry stringify reparse baseRegistry) mountRegistry st"

text \<open>
  The override of \<^verbatim>\<open>registry.generateOpenAPIDocument\<close> in \<^verbatim>\<open>expressPlus\<close>, up to the call of
  the original method: its own loop over the ledger. A path definition's copy is pushed
  without a test. The entry's registry is taken as what \<^verbatim>\<open>getRawRegistry()\<close> gives, where the
  loop calls it.
\<close>

definition generate_def ::
  "('m Schema \<Rightarrow> string) \<Rightarrow> ('m \<Rightarrow> 'm) \<Rightarrow> nat \<Rightarrow> string \<Rightarrow> nat \<Rightarrow> 'm store \<Rightarrow> 'm store" where
  "generate_def stringify reparse base mountPath a st =
     (if def_type (objects st ! a) = TypePath
      then (let (adjustedDef, st) = adjust reparse mountPath a st
            in push base adjustedDef st)
      else add_if_missing stringify base a st)"

definition generate_entry ::
  "('m Schema \<Rightarrow> string) \<Rightarrow> ('m \<Rightarrow> 'm) \<Rightarrow> nat \<Rightarrow> MountInfo \<Rightarrow> 'm store \<Rightarrow> 'm store" where
  "generate_entry stringify reparse base entry st =
     (case registry entry of
        Registry r \<Rightarrow> fold (generate_def stringify reparse base (path entry)) (definitions st r) st
      | _ \<Rightarrow> st)"

definition generateOpenAPIDocument ::
  "('m Schema \<Rightarrow> string) \<Rightarrow> ('m \<Rightarrow> 'm) \<Rightarrow> nat \<Rightarrow> MountInfo list \<Rightarrow> 'm store \<Rightarrow> 'm store" where
  "generateOpenAPIDocument stringify reparse baseRegistry mountRegistry st =
     fold (generate_entry stringify reparse baseRegistry) mountRegistry st"

text \<open>
  The base of the override is \<^verbatim>\<open>registry.getRawRegistry()\<close>, declared in \<^verbatim>\<open>types.ts\<close> as the
  class \<^verbatim>\<open>OpenAPIRegistry\<close> of the library \<^verbatim>\<open>@asteasolutions/zod-to-openapi\<close>, which is not part of
  the source. The loop reads \<^verbatim>\<open>baseRegistry.definitions\<close> anew for every \<^verbatim>\<open>some\<close> and every
  \<^verbatim>\<open>push\<close>, so what that read gives is a parameter: the array the registry holds (a data
  property, as on a plain object), or each time a new array with the same elements (a
  getter that copies, as that class has it). A push onto such a copy reaches no array of
  the store.
\<close>

datatype accessor = DataProperty | CopyingGetter

definition push_via :: "accessor \<Rightarrow> nat \<Rightarrow> nat \<Rightarrow> 'm store \<Rightarrow> 'm store" where
  "push_via acc r a st = (case acc of DataProperty \<Rightarrow> push r a st | CopyingGetter \<Rightarrow> st)"

definition generate_def_via ::
  "accessor \<Rightarrow> ('m Schema \<Rightarrow> string) \<Rightarrow> ('m \<Rightarrow> 'm) \<Rightarrow> nat \<Rightarrow> string \<Rightarrow> nat \<Rightarrow> 'm store
     \<Rightarrow> 'm store" where
  "generate_def_via acc stringify reparse base mountPath a st =
     (if def_type (objects st ! a) = TypePath
      then (let (adjustedDef, st) = adjust reparse mountPath a st
            in push_via acc base adjustedDef st)
      else (if \<not> some (same_entry stringify (objects st ! a)) base st
            then push_via acc base a st else st))"

definition generate_entry_via ::
  "accessor \<Rightarrow> ('m Schema \<Rightarrow> string) \<Rightarrow> ('m \<Rightarrow> 'm) \<Rightarrow> nat \<Rightarrow> MountInfo \<Rightarrow> 'm store
     \<Rightarrow> 'm store" where
  "generate_entry_via acc stringify reparse base entry st =
     (case registry entry of
        Registry r \<Rightarrow>
          fold (generate_def_via acc stringify reparse base (path entry)) (definitions st r) st
      | _ \<Rightarrow> st)"

definition generateOpenAPIDocument_via ::
  "accessor \<Rightarrow> ('m Schema \<Rightarrow> string) \<Rightarrow> ('m \<Rightarrow> 'm) \<Rightarrow> nat \<Rightarrow> MountInfo list \<Rightarrow> 'm store
     \<Rightarrow> 'm store" where
  "generateOpenAPIDocument_via acc stringify reparse baseRegistry mountRegistry st =
     fold (generate_entry_via acc stringify reparse baseRegistry) mountRegistry st"

section \<open>The invariant of a registry and the frame of the composition\<close>

text \<open>
  Two definitions are duplicates of each other when they are path definitions with the same
  \<open>(method, path)\<close>, or named definitions of the same kind with the same name, or
  anonymous definitions of the same kind with equal schemas.
\<close>

fun duplicate :: "'m Definition \<Rightarrow> 'm Definition \<Rightarrow> bool" where
  "duplicate (PathDefinition m p md) (PathDefinition m' p' md') = (m = m' \<and> p = p')"
| "duplicate (NamedDefinition k n s) (NamedDefinition k' n' s') = (k = k' \<and> n = n')"
| "duplicate (AnonymousDefinition k s) (AnonymousDefinition k' s') = (k = k' \<and> s = s')"
| "duplicate d e = False"

text \<open>The invariant of a definition collection: no two of its entries are duplicates.\<close>

fun registry_invariant :: "'m Definition list \<Rightarrow> bool" where
  "registry_invariant [] = True"
| "registry_invariant (d # ds) = (\<not> list_ex (duplicate d) ds \<and> registry_invariant ds)"

text \<open>
  What a composition into \<open>base\<close> may change from \<open>st\<close> to \<open>st'\<close>: it appends to the
  \<^verbatim>\<open>definitions\<close> array of \<open>base\<close> and creates objects. No other array and no object of
  \<open>st\<close> is touched.
\<close>

definition frame :: "nat \<Rightarrow> 'm store \<Rightarrow> 'm store \<Rightarrow> bool" where
  "frame base st st' =
     ((\<forall>r. r \<noteq> base \<longrightarrow> definitions st' r = definitions st r) \<and>
      (\<exists>new. objects st' = objects st @ new) \<and>
      (\<exists>new. definitions st' base = definitions st base @ new))"

section \<open>The composition on the definitions themselves\<close>

text \<open>
  In a store where every reference is to an existing object, what a composition does to the
  base can be told from the definitions alone; the proofs below go through these functions.
  \<open>adjusted\<close> is the object that \<open>adjust\<close> creates, \<open>combine_value\<close>, \<open>add_value\<close> and
  \<open>generate_value\<close> are what \<open>combine_def\<close>, \<open>add_if_missing\<close> and \<open>generate_def\<close> make of the
  definitions of the base.
\<close>

definition wf_store :: "'m store \<Rightarrow> bool" where
  "wf_store st = (\<forall>r. \<forall>a \<in> set (definitions st r). a < length (objects st))"

text \<open>No definition object has the empty string as its name.\<close>

definition nonempty_names :: "'m store \<Rightarrow> bool" where
  "nonempty_names st = (\<forall>d \<in> set (objects st). def_name d \<noteq> Some [])"

fun adjusted :: "('m \<Rightarrow> 'm) \<Rightarrow> string \<Rightarrow> 'm Definition \<Rightarrow> 'm Definition" where
  "adjusted reparse mountPath (PathDefinition m p md) =
     PathDefinition m (rewritePath mountPath p) (reparse md)"
| "adjusted reparse mountPath d = d"

definition add_value ::
  "('m Schema \<Rightarrow> string) \<Rightarrow> 'm Definition \<Rightarrow> 'm Definition list \<Rightarrow> 'm Definition list" where
  "add_value stringify d ds = (if list_ex (same_entry stringify d) ds then ds else ds @ [d])"

definition combine_value ::
  "('m Schema \<Rightarrow> string) \<Rightarrow> ('m \<Rightarrow> 'm) \<Rightarrow> string \<Rightarrow> 'm Definition \<Rightarrow> 'm Definition list
     \<Rightarrow> 'm Definition list" where
  "combine_value stringify reparse mountPath d ds =
     (if def_type d = TypePath
      then (if list_ex (same_path (adjusted reparse mountPath d)) ds then ds
            else ds @ [adjusted reparse mountPath d])
      else add_value stringify d ds)"

definition generate_value ::
  "('m Schema \<Rightarrow> string) \<Rightarrow> ('m \<Rightarrow> 'm) \<Rightarrow> string \<Rightarrow> 'm Definition \<Rightarrow> 'm Definition list
     \<Rightarrow> 'm Definition list" where
  "generate_value stringify reparse mountPath d ds =
     (if def_type d = TypePath then ds @ [adjusted reparse mountPath d]
      else add_value stringify d ds)"



section \<open>An example\<close>

text \<open>
  A store whose payloads are strings (a summary), for the evaluations below: the
  application's registry \<open>0\<close> documents \<^verbatim>\<open>GET /api/users\<close>, the router's registry \<open>1\<close>
  documents \<^verbatim>\<open>GET /users\<close>, registry \<open>2\<close> documents \<^verbatim>\<open>GET /api/users\<close> with another
  summary, and registry \<open>3\<close> is empty. On strings \<^verbatim>\<open>JSON.parse(JSON.stringify(_))\<close> is the
  identity, and \<open>stringify_example\<close> writes a schema out field by field.
\<close>

definition example_store :: "string store" where
  "example_store =
     \<lparr>objects = [PathDefinition Get ''/api/users'' ''app'',
                 PathDefinition Get ''/users'' ''router'',
                 PathDefinition Get ''/api/users'' ''other''],
      definitions = (\<lambda>r. [])(0 := [0], 1 := [1], 2 := [2])\<rparr>"

fun stringify_example :: "string Schema \<Rightarrow> string" where
  "stringify_example (PathSchema m p md) =
     ''{method:'' @ method_name m @ '',path:'' @ p @ '',summary:'' @ md @ ''}''"
| "stringify_example (Fragment s) = s"

text \<open>
  A second store: registry \<open>1\<close> documents \<^verbatim>\<open>GET //users\<close>, registry \<open>2\<close> documents
  \<^verbatim>\<open>GET /users\<close>, and the base \<open>0\<close> is empty.
\<close>

definition slash_store :: "string store" where
  "slash_store =
     \<lparr>objects = [PathDefinition Get ''//users'' ''double'',
                 PathDefinition Get ''/users'' ''single''],
      definitions = (\<lambda>r. [])(1 := [0], 2 := [1])\<rparr>"

section \<open>Dispatcher\<close>

text \<open>
  The arguments of a call, as far as the wrappers tell them apart. \<open>Obj\<close> is an object that
  passes the test of the first two cases (\<^verbatim>\<open>typeof\<close> is \<^verbatim>\<open>'object'\<close>, not \<^verbatim>\<open>null\<close>, not an
  array, not a \<^verbatim>\<open>RegExp\<close>), with its \<^verbatim>\<open>path\<close> field and the rest of its fields. \<open>Router\<close> is a
  routing target with its two markers \<^verbatim>\<open>_isRouterPlus\<close> and \<^verbatim>\<open>_registry\<close>; like \<open>Fn\<close> its
  \<^verbatim>\<open>typeof\<close> is \<^verbatim>\<open>'function'\<close>.
\<close>

record 'o EndpointOptions =
  opts_path :: "string option"
  opts_rest :: 'o

datatype ('o, 'f) jsvalue =
    Undefined
  | Null
  | Str string
  | Obj "'o EndpointOptions"
  | Arr "('o, 'f) jsvalue list"
  | RegExp string
  | Fn 'f
  | Router bool registry_value

fun typeof :: "('o, 'f) jsvalue \<Rightarrow> string" where
  "typeof Undefined = ''undefined''"
| "typeof Null = ''object''"
| "typeof (Str s) = ''string''"
| "typeof (Obj opts) = ''object''"
| "typeof (Arr vs) = ''object''"
| "typeof (RegExp s) = ''object''"
| "typeof (Fn f) = ''function''"
| "typeof (Router isRouterPlus reg) = ''function''"

fun isArray :: "('o, 'f) jsvalue \<Rightarrow> bool" where
  "isArray (Arr vs) = True"
| "isArray v = False"

fun instanceof_RegExp :: "('o, 'f) jsvalue \<Rightarrow> bool" where
  "instanceof_RegExp (RegExp s) = True"
| "instanceof_RegExp v = False"

text \<open>Truthiness: \<^verbatim>\<open>undefined\<close>, \<^verbatim>\<open>null\<close> and the empty string are falsy.\<close>

fun truthy :: "('o, 'f) jsvalue \<Rightarrow> bool" where
  "truthy Undefined = False"
| "truthy Null = False"
| "truthy (Str s) = (s \<noteq> [])"
| "truthy v = True"

text \<open>The property read \<^verbatim>\<open>opts.path\<close>.\<close>

fun get_path :: "('o, 'f) jsvalue \<Rightarrow> ('o, 'f) jsvalue" where
  "get_path (Obj opts) = (case opts_path opts of None \<Rightarrow> Undefined | Some p \<Rightarrow> Str p)"
| "get_path v = Undefined"

datatype error = Error string

text \<open>
  What the calls leave behind: the invocations of \<^verbatim>\<open>createEndpoint\<close> with their arguments
  \<^verbatim>\<open>(method, path, options)\<close>, and the calls that reached a method of the underlying routing
  target.
\<close>

record ('o, 'f) target =
  endpoints :: "(HttpMethod \<times> ('o, 'f) jsvalue \<times> ('o, 'f) jsvalue) list"
  registrations :: "(HttpMethod \<times> ('o, 'f) jsvalue list) list"

type_synonym ('o, 'f) verb =
  "('o, 'f) jsvalue list \<Rightarrow> ('o, 'f) target \<Rightarrow> (error + unit) \<times> ('o, 'f) target"

text \<open>
  \<^verbatim>\<open>createEndpoint\<close> is a parameter: the middleware it returns for \<^verbatim>\<open>(method, path, options)\<close>.
  Calling it is recorded in \<open>endpoints\<close>.
\<close>

type_synonym ('o, 'f) factory =
  "HttpMethod \<Rightarrow> ('o, 'f) jsvalue \<Rightarrow> ('o, 'f) jsvalue \<Rightarrow> ('o, 'f) jsvalue"

definition call_factory ::
  "('o, 'f) factory \<Rightarrow> HttpMethod \<Rightarrow> ('o, 'f) jsvalue \<Rightarrow> ('o, 'f) jsvalue \<Rightarrow> ('o, 'f) target
     \<Rightarrow> ('o, 'f) jsvalue \<times> ('o, 'f) target" where
  "call_factory createEndpoint method p opts t =
     (createEndpoint method p opts, t\<lparr>endpoints := endpoints t @ [(method, p, opts)]\<rparr>)"

text \<open>The verb methods of the routing target before they are replaced.\<close>

definition express :: "HttpMethod \<Rightarrow> ('o, 'f) verb" where
  "express method args t = (Inr (), t\<lparr>registrations := registrations t @ [(method, args)]\<rparr>)"

text \<open>
  The test of both cases on an argument:
  \<^verbatim>\<open>typeof v === 'object' && v !== null && !Array.isArray(v) && !(v instanceof RegExp)\<close>
\<close>

definition plain_object :: "('o, 'f) jsvalue \<Rightarrow> bool" where
  "plain_object v =
     (typeof v = ''object'' \<and> v \<noteq> Null \<and> \<not> isArray v \<and> \<not> instanceof_RegExp v)"

text \<open>The function that replaces \<^verbatim>\<open>target[method]\<close>.\<close>

definition enhanced :: "('o, 'f) factory \<Rightarrow> ('o, 'f) verb \<Rightarrow> HttpMethod \<Rightarrow> ('o, 'f) verb" where
  "enhanced createEndpoint originalMethod method args t =
     (if length args > 1 \<and> plain_object (args ! 0)
      then (let opts = args ! 0; handler = args ! 1; rest = drop 2 args
            in if \<not> truthy (get_path opts)
               then (Inl (Error (''Path is required when using options as first argument for ''
                                  @ method_name method)), t)
               else (let (validationMiddleware, t) =
                           call_factory createEndpoint method (get_path opts) opts t
                     in originalMethod (get_path opts # validationMiddleware # handler # rest) t))
      else if length args > 2 \<and> typeof (args ! 0) = ''string'' \<and> plain_object (args ! 1)
      then (let p = args ! 0; opts = args ! 1; handler = args ! 2; rest = drop 3 args
            in (let (validationMiddleware, t) = call_factory createEndpoint method p opts t
                in originalMethod (p # validationMiddleware # handler # rest) t))
      else originalMethod args t)"

text \<open>\<^verbatim>\<open>enhanceHttpMethods(target, methods, createEndpoint)\<close>: \<^verbatim>\<open>methods.forEach\<close>.\<close>

definition enhanceHttpMethods ::
  "(HttpMethod \<Rightarrow> ('o, 'f) verb) \<Rightarrow> HttpMethod list \<Rightarrow> ('o, 'f) factory \<Rightarrow> (HttpMethod \<Rightarrow> ('o, 'f) verb)" where
  "enhanceHttpMethods target methods createEndpoint =
     fold (\<lambda>method target.
             target(method := enhanced createEndpoint (target method) method))
          methods target"

text \<open>The list \<^verbatim>\<open>methods\<close> of \<^verbatim>\<open>expressPlus\<close> and of \<^verbatim>\<open>routerPlus\<close>.\<close>

definition methods :: "HttpMethod list" where
  "methods = [Get, Post, Put, Delete, Patch, Options, Head]"

section \<open>Attaching a sub-target\<close>

text \<open>
  \<^verbatim>\<open>middleware && middleware._isRouterPlus && middleware._registry\<close>: only a routing target
  carries the markers; an absent registry is falsy.
\<close>

fun is_RouterPlus :: "('o, 'f) jsvalue \<Rightarrow> bool" where
  "is_RouterPlus (Router isRouterPlus reg) = (isRouterPlus \<and> reg \<noteq> Absent)"
| "is_RouterPlus v = False"

fun registry_of :: "('o, 'f) jsvalue \<Rightarrow> registry_value" where
  "registry_of (Router isRouterPlus reg) = reg"
| "registry_of v = Absent"

fun mountPath_of :: "('o, 'f) jsvalue \<Rightarrow> string" where
  "mountPath_of (Str p) = p"
| "mountPath_of v = ''/''"

text \<open>
  The function that replaces \<^verbatim>\<open>use\<close>, the same in \<^verbatim>\<open>expressPlus\<close> and in \<^verbatim>\<open>routerPlus\<close>. The
  state is the global \<^verbatim>\<open>mountRegistry\<close> with the state \<open>'t\<close> of the routing target;
  \<open>originalUse\<close> is the method that was replaced.
\<close>

definition use ::
  "(('o, 'f) jsvalue list \<Rightarrow> MountInfo list \<times> 't \<Rightarrow> MountInfo list \<times> 't) \<Rightarrow>
   ('o, 'f) jsvalue list \<Rightarrow> MountInfo list \<times> 't \<Rightarrow> MountInfo list \<times> 't" where
  "use originalUse args w =
     (let w = (if length args \<ge> 2
               then (let mountPath = mountPath_of (args ! 0);
                         middleware = args ! 1
                     in if is_RouterPlus middleware
                        then (registerMount mountPath (registry_of middleware) (fst w), snd w)
                        else w)
               else w);
          w = (if length args = 1 \<and> is_RouterPlus (args ! 0)
               then (registerMount ''/'' (registry_of (args ! 0)) (fst w), snd w)
               else w)
      in originalUse args w)"

text \<open>
  The \<^verbatim>\<open>use\<close> of the routing target before it is replaced: the state of the target is the
  list of the calls that reached it.
\<close>

definition express_use ::
  "('o, 'f) jsvalue list \<Rightarrow> MountInfo list \<times> ('o, 'f) jsvalue list list
     \<Rightarrow> MountInfo list \<times> ('o, 'f) jsvalue list list" where
  "express_use args w = (fst w, snd w @ [args])"

section \<open>Properties of the mount ledger\<close>

lemma startsWith_slash: "startsWith s ''/'' \<longleftrightarrow> (\<exists>t. s = CHR ''/'' # t)"
  by (cases s) (auto simp: startsWith_def)

lemma endsWith_slash: "endsWith s ''/'' \<longleftrightarrow> (s \<noteq> [] \<and> last s = CHR ''/'')"
proof (cases s rule: rev_cases)
  case Nil
  then show ?thesis by (simp add: endsWith_def)
next
  case (snoc t c)
  then show ?thesis by (simp add: endsWith_def)
qed

lemma has_double_slash_Cons:
  "has_double_slash (a # s) \<longleftrightarrow> (a = CHR ''/'' \<and> startsWith s ''/'') \<or> has_double_slash s"
  by (cases s) (auto simp: startsWith_def)

lemma has_double_slash_append:
  "has_double_slash (xs @ ys) \<longleftrightarrow>
     has_double_slash xs \<or> has_double_slash ys \<or> (endsWith xs ''/'' \<and> startsWith ys ''/'')"
proof (induction xs)
  case Nil
  then show ?case by (simp add: endsWith_def)
next
  case (Cons a xs)
  show ?case
  proof (cases xs)
    case Nil
    then show ?thesis
      by (cases ys) (auto simp: endsWith_def startsWith_def)
  next
    case (Cons b zs)
    with Cons.IH show ?thesis
      by (auto simp: endsWith_slash startsWith_slash)
  qed
qed

lemma registerMount_path:
  "path (last (registerMount mountPath reg ledger)) =
     (let n = (if startsWith mountPath ''/'' then mountPath else ''/'' @ mountPath)
      in if endsWith n ''/'' \<and> length n > 1 then butlast n else n)"
  by (simp add: registerMount_def Let_def slice_0_minus1_def)

lemma stored_path_clean:
  fixes mountPath :: string and reg :: registry_value and ledger :: "MountInfo list"
  assumes "\<not> has_double_slash mountPath"
  defines "stored \<equiv> path (last (registerMount mountPath reg ledger))"
  shows "\<not> has_double_slash stored" and "stored = ''/'' \<or> \<not> endsWith stored ''/''"
proof -
  define n where "n = (if startsWith mountPath ''/'' then mountPath else ''/'' @ mountPath)"
  have stored: "stored = (if endsWith n ''/'' \<and> length n > 1 then butlast n else n)"
    by (simp add: stored_def registerMount_path n_def Let_def)
  have n_clean: "\<not> has_double_slash n"
    using assms(1) by (simp add: n_def has_double_slash_Cons)
  have n_start: "startsWith n ''/''"
    by (simp add: n_def) (simp add: startsWith_def)
  then have n_ne: "n \<noteq> []"
    by (auto simp: startsWith_slash)
  then have split: "n = butlast n @ [last n]"
    by simp
  have bl_clean: "\<not> has_double_slash (butlast n)"
    using n_clean has_double_slash_append [of "butlast n" "[last n]"] split by auto
  show "\<not> has_double_slash stored"
    using n_clean bl_clean by (simp add: stored)
  show "stored = ''/'' \<or> \<not> endsWith stored ''/''"
  proof (cases "endsWith n ''/'' \<and> length n > 1")
    case True
    then have "last n = CHR ''/''"
      by (simp add: endsWith_slash)
    then have "n = butlast n @ ''/''"
      using split by simp
    then have "has_double_slash n" if "endsWith (butlast n) ''/''"
      using that has_double_slash_append [of "butlast n" "''/''"] by (simp add: startsWith_def)
    with n_clean True show ?thesis
      by (auto simp: stored)
  next
    case False
    show ?thesis
    proof (cases "endsWith n ''/''")
      case True
      with False have "length n = 1"
        using n_ne by (cases n) auto
      with n_start have "n = ''/''"
        by (cases n) (auto simp: startsWith_slash)
      with False show ?thesis by (simp add: stored)
    next
      case False
      then show ?thesis by (simp add: stored)
    qed
  qed
qed

lemma route_path_clean:
  fixes schemaPath :: string
  assumes "\<not> has_double_slash schemaPath"
  defines "rest \<equiv> (if startsWith schemaPath ''/'' then substring_1 schemaPath else schemaPath)"
  shows "\<not> has_double_slash rest" and "\<not> startsWith rest ''/''"
    and "schemaPath = rest \<or> schemaPath = ''/'' @ rest"
  using assms(1) unfolding rest_def
  by (cases schemaPath; auto simp: substring_1_def startsWith_slash has_double_slash_Cons)+

text \<open>
  What the rewriting lines do when neither the mount path given to \<^verbatim>\<open>registerMount\<close> nor the
  path of the definition contains \<open>//\<close>: the rewritten path is the stored mount path, one
  \<open>/\<close>, and the definition's path without its leading \<open>/\<close> if it has one (for the stored
  mount path \<open>/\<close>: one \<open>/\<close> and that rest), and it contains no \<open>//\<close>. These lines are
  reached by \<^verbatim>\<open>combineRegistries\<close> for a mount other than \<open>/\<close>, and by the loop of
  \<^verbatim>\<open>generateOpenAPIDocument\<close> for every mount.
\<close>

lemma rewritePath_no_double_slash:
  assumes "\<not> has_double_slash mountPath" and "\<not> has_double_slash schemaPath"
  shows "\<exists>stored rest.
           stored = path (last (registerMount mountPath reg ledger)) \<and>
           (schemaPath = rest \<or> schemaPath = ''/'' @ rest) \<and>
           rewritePath stored schemaPath
             = (if stored = ''/'' then ''/'' @ rest else stored @ ''/'' @ rest) \<and>
           \<not> has_double_slash (rewritePath stored schemaPath)"
proof -
  define stored where "stored = path (last (registerMount mountPath reg ledger))"
  define rest where "rest = (if startsWith schemaPath ''/'' then substring_1 schemaPath else schemaPath)"
  have rw: "rewritePath stored schemaPath
             = (if stored = ''/'' then ''/'' @ rest else stored @ ''/'' @ rest)"
    by (simp add: rewritePath_def rest_def)
  have s1: "\<not> has_double_slash stored" and s2: "stored = ''/'' \<or> \<not> endsWith stored ''/''"
    using stored_path_clean [OF assms(1)] by (simp_all add: stored_def)
  have r1: "\<not> has_double_slash rest" and r2: "\<not> startsWith rest ''/''"
    and r3: "schemaPath = rest \<or> schemaPath = ''/'' @ rest"
    using route_path_clean [OF assms(2)] by (simp_all add: rest_def)
  have "\<not> has_double_slash (rewritePath stored schemaPath)"
  proof (cases "stored = ''/''")
    case True
    then have "rewritePath stored schemaPath = CHR ''/'' # rest"
      using rw by simp
    with r1 r2 show ?thesis
      by (simp add: has_double_slash_Cons)
  next
    case False
    with s2 have "\<not> endsWith stored ''/''" by simp
    moreover from False have "rewritePath stored schemaPath = stored @ CHR ''/'' # rest"
      using rw by simp
    ultimately show ?thesis
      using s1 r1 r2 by (simp add: has_double_slash_append has_double_slash_Cons)
  qed
  with rw r3 show ?thesis
    unfolding stored_def by blast
qed

text \<open>
  Claim C5: the stored mount path begins with \<open>/\<close> and does not end with \<open>/\<close> unless it
  is \<open>/\<close>. The code strips one trailing \<open>/\<close> only: \<^verbatim>\<open>registerMount("/api//", R)\<close> stores
  \<open>/api/\<close>.
\<close>

theorem registerMount_keeps_trailing_slash:
  "map path (registerMount ''/api//'' (Registry 1) []) = [''/api/'']"
  by (simp add: registerMount_def startsWith_def endsWith_def slice_0_minus1_def)

text \<open>What does hold of the stored mount path: it begins with \<open>/\<close>, and the three examples.\<close>

lemma registerMount_starts_with_slash:
  "startsWith (path (last (registerMount mountPath reg ledger))) ''/''"
proof -
  define n where "n = (if startsWith mountPath ''/'' then mountPath else ''/'' @ mountPath)"
  have stored: "path (last (registerMount mountPath reg ledger))
                  = (if endsWith n ''/'' \<and> length n > 1 then butlast n else n)"
    by (simp add: registerMount_path n_def Let_def)
  have "startsWith n ''/''"
    by (simp add: n_def) (simp add: startsWith_def)
  then obtain t where n: "n = CHR ''/'' # t"
    by (auto simp: startsWith_slash)
  show ?thesis
    unfolding stored n by (cases t) (auto simp: startsWith_def)
qed

lemma registerMount_examples:
  "map path (registerMount ''api/'' reg []) = [''/api'']"
  "map path (registerMount ''/api'' reg []) = [''/api'']"
  "map path (registerMount ''/api/'' reg []) = [''/api'']"
  by (simp_all add: registerMount_def startsWith_def endsWith_def slice_0_minus1_def)

section \<open>Properties of the dispatcher\<close>

lemma enhanceHttpMethods_methods:
  "enhanceHttpMethods target methods createEndpoint m
     = enhanced createEndpoint (target m) m"
  by (cases m) (simp_all add: enhanceHttpMethods_def methods_def)

lemma plain_object_iff: "plain_object v \<longleftrightarrow> (\<exists>opts. v = Obj opts)"
  by (cases v) (simp_all add: plain_object_def)

lemma typeof_string_iff: "typeof v = ''string'' \<longleftrightarrow> (\<exists>p. v = Str p)"
  by (cases v) simp_all

text \<open>
  Claim C6. For every verb method, a call with two or more arguments whose first argument
  is an options object without a \<^verbatim>\<open>path\<close> field raises an error whose message ends with the
  name of the method, and leaves the routing target as it was: \<^verbatim>\<open>createEndpoint\<close> has not
  been called and nothing has been registered.
\<close>

theorem missing_path_raises:
  assumes "opts_path opts = None"
  shows "enhanceHttpMethods express methods createEndpoint m (Obj opts # handler # rest) t
           = (Inl (Error (''Path is required when using options as first argument for ''
                           @ method_name m)), t)"
  using assms
  by (simp add: enhanceHttpMethods_methods enhanced_def plain_object_def)

text \<open>Claim C6 at \<^verbatim>\<open>post({body}, handler)\<close>.\<close>

theorem missing_path_raises_witness:
  "opts_path \<lparr>opts_path = None, opts_rest = ''body''\<rparr> = None \<and>
   enhanceHttpMethods express methods (\<lambda>m p opts. Fn ''validate'') Post
     [Obj \<lparr>opts_path = None, opts_rest = ''body''\<rparr>, Fn ''handler'']
     \<lparr>endpoints = [], registrations = []\<rparr>
   = (Inl (Error ''Path is required when using options as first argument for post''),
      \<lparr>endpoints = [], registrations = []\<rparr>)"
  using missing_path_raises [where opts = "\<lparr>opts_path = None, opts_rest = ''body''\<rparr>"
      and createEndpoint = "\<lambda>m p opts. Fn ''validate''" and m = Post
      and handler = "Fn ''handler''" and rest = "[]"
      and t = "\<lparr>endpoints = [], registrations = []\<rparr>"]
  by simp

text \<open>
  Claim C10. A call with exactly two arguments, a string and an options object, is passed
  through: the two arguments reach the underlying method as they are, and
  \<^verbatim>\<open>createEndpoint\<close> is not called.
\<close>

theorem two_arguments_pass_through:
  "enhanceHttpMethods express methods createEndpoint m [Str p, Obj opts] t
     = (Inr (), t\<lparr>registrations := registrations t @ [(m, [Str p, Obj opts])]\<rparr>)"
  by (simp add: enhanceHttpMethods_methods enhanced_def plain_object_def express_def)

text \<open>
  Claim C7. For every verb method, the call \<^verbatim>\<open>(opts1, handler, ...rest)\<close> with
  \<^verbatim>\<open>opts1.path = p\<close> and the call \<^verbatim>\<open>(p, opts2, handler, ...rest)\<close> each call \<^verbatim>\<open>createEndpoint\<close>
  once and register once, \<^verbatim>\<open>(p, validationMiddleware, handler, ...rest)\<close>, the middleware
  being what \<^verbatim>\<open>createEndpoint\<close> returned for the method, \<open>p\<close> and the options object of the
  call; the two registrations are the same when that middleware is. A call of any other
  form reaches the underlying method with its arguments unchanged, and \<^verbatim>\<open>createEndpoint\<close>
  is not called.
\<close>

theorem shapes_register_once:
  fixes createEndpoint :: "('o, 'f) factory"
  assumes "opts_path opts1 = Some p" and "p \<noteq> []"
  shows "enhanceHttpMethods express methods createEndpoint m (Obj opts1 # handler # rest) t
           = (Inr (), t\<lparr>endpoints := endpoints t @ [(m, Str p, Obj opts1)],
                         registrations := registrations t @
                           [(m, Str p # createEndpoint m (Str p) (Obj opts1) # handler # rest)]\<rparr>)
       \<and> enhanceHttpMethods express methods createEndpoint m (Str p # Obj opts2 # handler # rest) t
           = (Inr (), t\<lparr>endpoints := endpoints t @ [(m, Str p, Obj opts2)],
                         registrations := registrations t @
                           [(m, Str p # createEndpoint m (Str p) (Obj opts2) # handler # rest)]\<rparr>)
       \<and> (createEndpoint m (Str p) (Obj opts1) = createEndpoint m (Str p) (Obj opts2) \<longrightarrow>
            registrations (snd (enhanceHttpMethods express methods createEndpoint m
                                  (Obj opts1 # handler # rest) t))
            = registrations (snd (enhanceHttpMethods express methods createEndpoint m
                                  (Str p # Obj opts2 # handler # rest) t)))
       \<and> ((\<nexists>opts h r. args = Obj opts # h # r) \<and> (\<nexists>q opts h r. args = Str q # Obj opts # h # r) \<longrightarrow>
            enhanceHttpMethods express methods createEndpoint m args t
            = (Inr (), t\<lparr>registrations := registrations t @ [(m, args)]\<rparr>))"
proof -
  let ?call = "enhanceHttpMethods express methods createEndpoint m"
  have one: "?call (Obj opts1 # handler # rest) t
           = (Inr (), t\<lparr>endpoints := endpoints t @ [(m, Str p, Obj opts1)],
                         registrations := registrations t @
                           [(m, Str p # createEndpoint m (Str p) (Obj opts1) # handler # rest)]\<rparr>)"
    using assms
    by (simp add: enhanceHttpMethods_methods enhanced_def plain_object_def call_factory_def
        express_def Let_def)
  have two: "?call (Str p # Obj opts2 # handler # rest) t
           = (Inr (), t\<lparr>endpoints := endpoints t @ [(m, Str p, Obj opts2)],
                         registrations := registrations t @
                           [(m, Str p # createEndpoint m (Str p) (Obj opts2) # handler # rest)]\<rparr>)"
    by (simp add: enhanceHttpMethods_methods enhanced_def plain_object_def call_factory_def
        express_def Let_def)
  have three: "?call args t = (Inr (), t\<lparr>registrations := registrations t @ [(m, args)]\<rparr>)"
    if n1: "\<nexists>opts h r. args = Obj opts # h # r"
      and n2: "\<nexists>q opts h r. args = Str q # Obj opts # h # r"
  proof -
    have c1: "\<not> (length args > 1 \<and> plain_object (args ! 0))"
    proof
      assume a: "length args > 1 \<and> plain_object (args ! 0)"
      then obtain x y r where "args = x # y # r"
        by (cases args; cases "tl args") auto
      with a n1 show False
        by (auto simp: plain_object_iff)
    qed
    have c2: "\<not> (length args > 2 \<and> typeof (args ! 0) = ''string'' \<and> plain_object (args ! 1))"
    proof
      assume a: "length args > 2 \<and> typeof (args ! 0) = ''string'' \<and> plain_object (args ! 1)"
      then obtain x y z r where "args = x # y # z # r"
        by (cases args; cases "tl args"; cases "tl (tl args)") auto
      with a n2 show False
        by (auto simp: plain_object_iff typeof_string_iff)
    qed
    have "enhanced createEndpoint (express m) m args t = express m args t"
      unfolding enhanced_def using c1 c2 by (simp only: if_False)
    then show ?thesis
      by (simp add: enhanceHttpMethods_methods express_def)
  qed
  from one two three show ?thesis
    by simp
qed

text \<open>
  Claim C7 at \<^verbatim>\<open>post({path: "/x", body}, handler)\<close>, \<^verbatim>\<open>post("/x", {body}, handler)\<close> and
  \<^verbatim>\<open>post("/x", handler)\<close>.
\<close>

theorem shapes_register_once_witness:
  "opts_path \<lparr>opts_path = Some ''/x'', opts_rest = ''body''\<rparr> = Some ''/x'' \<and> ''/x'' \<noteq> [] \<and>
   enhanceHttpMethods express methods (\<lambda>m p opts. Fn ''validate'') Post
     [Obj \<lparr>opts_path = Some ''/x'', opts_rest = ''body''\<rparr>, Fn ''handler'']
     \<lparr>endpoints = [], registrations = []\<rparr>
   = (Inr (), \<lparr>endpoints = [(Post, Str ''/x'', Obj \<lparr>opts_path = Some ''/x'', opts_rest = ''body''\<rparr>)],
               registrations = [(Post, [Str ''/x'', Fn ''validate'', Fn ''handler''])]\<rparr>) \<and>
   enhanceHttpMethods express methods (\<lambda>m p opts. Fn ''validate'') Post
     [Str ''/x'', Obj \<lparr>opts_path = None, opts_rest = ''body''\<rparr>, Fn ''handler'']
     \<lparr>endpoints = [], registrations = []\<rparr>
   = (Inr (), \<lparr>endpoints = [(Post, Str ''/x'', Obj \<lparr>opts_path = None, opts_rest = ''body''\<rparr>)],
               registrations = [(Post, [Str ''/x'', Fn ''validate'', Fn ''handler''])]\<rparr>) \<and>
   enhanceHttpMethods express methods (\<lambda>m p opts. Fn ''validate'') Post
     [Str ''/x'', Fn ''handler'']
     (\<lparr>endpoints = [], registrations = []\<rparr> :: (string, string) target)
   = (Inr (), \<lparr>endpoints = [],
               registrations = [(Post, [Str ''/x'', Fn ''handler''])]\<rparr>)"
  using shapes_register_once [where ?opts1.0 = "\<lparr>opts_path = Some ''/x'', opts_rest = ''body''\<rparr>"
      and p = "''/x''" and ?opts2.0 = "\<lparr>opts_path = None, opts_rest = ''body''\<rparr>"
      and createEndpoint = "\<lambda>m p opts. Fn ''validate''" and m = Post
      and handler = "Fn ''handler''" and rest = "[]"
      and args = "[Str ''/x'', Fn ''handler'']"
      and t = "\<lparr>endpoints = [], registrations = []\<rparr>"]
  by simp

section \<open>Properties of attaching\<close>

text \<open>
  Claim C8, as amended. When the argument that the wrapper looks at (the only argument, or
  the second of two or more) carries both markers, the underlying \<^verbatim>\<open>use\<close> is called with the same arguments on a
  ledger that already has the new entry: the value's registry at the mount path, which is
  the first argument when that is a string and \<open>/\<close> otherwise.
\<close>

theorem use_records_mount:
  assumes "reg \<noteq> Absent"
  shows "use originalUse [Router True reg] (ledger, t)
           = originalUse [Router True reg] (ledger @ [\<lparr>path = ''/'', registry = reg\<rparr>], t)
       \<and> use originalUse (Str p # Router True reg # rest) (ledger, t)
           = originalUse (Str p # Router True reg # rest) (registerMount p reg ledger, t)
       \<and> (typeof a \<noteq> ''string'' \<longrightarrow>
            use originalUse (a # Router True reg # rest) (ledger, t)
            = originalUse (a # Router True reg # rest)
                (ledger @ [\<lparr>path = ''/'', registry = reg\<rparr>], t))"
proof -
  have root: "registerMount ''/'' reg ledger = ledger @ [\<lparr>path = ''/'', registry = reg\<rparr>]"
    by (simp add: registerMount_def startsWith_def endsWith_def)
  have "mountPath_of a = ''/''" if "typeof a \<noteq> ''string''"
    using that by (cases a) simp_all
  with assms root show ?thesis
    by (simp add: use_def)
qed

text \<open>The amended claim C8 at \<^verbatim>\<open>use(router)\<close>, \<^verbatim>\<open>use("api/", router)\<close> and \<^verbatim>\<open>use(mw, router)\<close>.\<close>

theorem use_records_mount_witness:
  "Registry 1 \<noteq> Absent \<and>
   use (\<lambda>args (ledger, t). (ledger, t @ [args]))
     [Router True (Registry 1) :: (string, string) jsvalue] ([], [])
     = ([\<lparr>path = ''/'', registry = Registry 1\<rparr>], [[Router True (Registry 1)]]) \<and>
   use (\<lambda>args (ledger, t). (ledger, t @ [args]))
     [Str ''api/'', Router True (Registry 1) :: (string, string) jsvalue] ([], [])
     = ([\<lparr>path = ''/api'', registry = Registry 1\<rparr>], [[Str ''api/'', Router True (Registry 1)]]) \<and>
   use (\<lambda>args (ledger, t). (ledger, t @ [args]))
     [Fn ''mw'', Router True (Registry 1) :: (string, string) jsvalue] ([], [])
     = ([\<lparr>path = ''/'', registry = Registry 1\<rparr>], [[Fn ''mw'', Router True (Registry 1)]])"
  using use_records_mount [where reg = "Registry 1"
      and originalUse = "\<lambda>(args :: (string, string) jsvalue list) (ledger, t). (ledger, t @ [args])"
      and ledger = "[]" and t = "[]" and p = "''api/''" and rest = "[]" and a = "Fn ''mw''"]
  by (simp add: registerMount_def startsWith_def endsWith_def slice_0_minus1_def)

text \<open>
  Claim C8 as stated fails: a router with both markers in another position is attached and
  not recorded. \<^verbatim>\<open>use("/api", mw, router)\<close> records nothing, and \<^verbatim>\<open>use(router1, router2)\<close> records
  the second router only.
\<close>

theorem use_skips_other_positions:
  "is_RouterPlus (Router True (Registry 1) :: (string, string) jsvalue) \<and>
   use express_use [Str ''/api'', Fn ''mw'', Router True (Registry 1) :: (string, string) jsvalue]
     ([], [])
     = ([], [[Str ''/api'', Fn ''mw'', Router True (Registry 1)]]) \<and>
   use express_use
     [Router True (Registry 1), Router True (Registry 2) :: (string, string) jsvalue] ([], [])
     = ([\<lparr>path = ''/'', registry = Registry 2\<rparr>],
        [[Router True (Registry 1), Router True (Registry 2)]])"
  by (simp add: use_def express_use_def registerMount_def startsWith_def endsWith_def)

section \<open>The frame of the composition\<close>

lemma frame_refl: "frame base st st"
  by (simp add: frame_def)

lemma frame_trans: "frame base st st' \<Longrightarrow> frame base st' st'' \<Longrightarrow> frame base st st''"
  unfolding frame_def by (metis append.assoc)

lemma frame_push: "frame base st (push base a st)"
  by (simp add: frame_def push_def)

lemma frame_adjust: "frame base st (snd (adjust reparse mountPath a st))"
  by (cases "objects st ! a")
    (simp_all add: adjust_def alloc_def assign_schema_path_def frame_def)

lemma frame_add_if_missing: "frame base st (add_if_missing stringify base a st)"
  by (simp add: add_if_missing_def frame_push frame_refl)

lemma frame_combine_def: "frame base st (combine_def stringify reparse base mountPath a st)"
proof (cases "adjust reparse mountPath a st")
  case (Pair adjustedDef st1)
  then have "frame base st st1"
    using frame_adjust [of base st reparse mountPath a] by simp
  then have "frame base st (push base adjustedDef st1)"
    using frame_push frame_trans by blast
  with \<open>frame base st st1\<close> Pair show ?thesis
    by (simp add: combine_def_def frame_add_if_missing)
qed

lemma frame_generate_def: "frame base st (generate_def stringify reparse base mountPath a st)"
proof (cases "adjust reparse mountPath a st")
  case (Pair adjustedDef st1)
  then have "frame base st st1"
    using frame_adjust [of base st reparse mountPath a] by simp
  then have "frame base st (push base adjustedDef st1)"
    using frame_push frame_trans by blast
  with Pair show ?thesis
    by (simp add: generate_def_def frame_add_if_missing)
qed

lemma frame_fold:
  assumes "\<And>x st. frame base st (f x st)"
  shows "frame base st (fold f xs st)"
proof (induction xs arbitrary: st)
  case Nil
  show ?case by (simp add: frame_refl)
next
  case (Cons x xs)
  have "frame base st (f x st)" by (rule assms)
  moreover have "frame base (f x st) (fold f xs (f x st))" by (rule Cons.IH)
  ultimately show ?case
    using frame_trans by fastforce
qed

lemma frame_combine_entry: "frame base st (combine_entry stringify reparse base entry st)"
  by (cases "registry entry")
    (simp_all add: combine_entry_def frame_refl frame_fold frame_add_if_missing frame_combine_def)

lemma frame_generate_entry: "frame base st (generate_entry stringify reparse base entry st)"
  by (cases "registry entry")
    (simp_all add: generate_entry_def frame_refl frame_fold frame_generate_def)

lemma frame_combineRegistries:
  "frame base st (combineRegistries stringify reparse base ledger st)"
  unfolding combineRegistries_def by (rule frame_fold) (rule frame_combine_entry)

lemma frame_generateOpenAPIDocument:
  "frame base st (generateOpenAPIDocument stringify reparse base ledger st)"
  unfolding generateOpenAPIDocument_def by (rule frame_fold) (rule frame_generate_entry)

lemma frame_defs_of:
  assumes "frame base st st'" and "r \<noteq> base"
    and "\<forall>a \<in> set (definitions st r). a < length (objects st)"
  shows "defs_of st' r = defs_of st r"
proof -
  from assms(1) obtain new where "objects st' = objects st @ new"
    by (auto simp: frame_def)
  moreover from assms(1,2) have "definitions st' r = definitions st r"
    by (simp add: frame_def)
  ultimately show ?thesis
    using assms(3) by (simp add: defs_of_def nth_append)
qed

text \<open>
  Claim C9. After a composition into \<open>base\<close>, by \<^verbatim>\<open>combineRegistries\<close> or by the loop of
  \<^verbatim>\<open>generateOpenAPIDocument\<close>: the \<^verbatim>\<open>definitions\<close> array of every other registry is the same
  list of references, every object that existed is unchanged (the rewritten path is written
  into a new object), so every other registry has the same definitions as before, and the
  array of the base has only been appended to.
\<close>

theorem composition_frame:
  "\<forall>st' \<in> {combineRegistries stringify reparse base mountRegistry st,
             generateOpenAPIDocument stringify reparse base mountRegistry st}.
     (\<forall>r. r \<noteq> base \<longrightarrow> definitions st' r = definitions st r) \<and>
     (\<forall>a < length (objects st). objects st' ! a = objects st ! a) \<and>
     (\<forall>r. r \<noteq> base \<and> (\<forall>a \<in> set (definitions st r). a < length (objects st)) \<longrightarrow>
          defs_of st' r = defs_of st r) \<and>
     (\<exists>new. definitions st' base = definitions st base @ new)"
proof -
  have "(\<forall>r. r \<noteq> base \<longrightarrow> definitions st' r = definitions st r) \<and>
     (\<forall>a < length (objects st). objects st' ! a = objects st ! a) \<and>
     (\<forall>r. r \<noteq> base \<and> (\<forall>a \<in> set (definitions st r). a < length (objects st)) \<longrightarrow>
          defs_of st' r = defs_of st r) \<and>
     (\<exists>new. definitions st' base = definitions st base @ new)"
    if f: "frame base st st'" for st'
  proof -
    from f obtain new where "objects st' = objects st @ new"
      by (auto simp: frame_def)
    then have "\<forall>a < length (objects st). objects st' ! a = objects st ! a"
      by (simp add: nth_append)
    moreover have "defs_of st' r = defs_of st r"
      if "r \<noteq> base" and "\<forall>a \<in> set (definitions st r). a < length (objects st)" for r
      using frame_defs_of [OF f that] .
    ultimately show ?thesis
      using f by (auto simp: frame_def)
  qed
  then show ?thesis
    using frame_combineRegistries frame_generateOpenAPIDocument by blast
qed

text \<open>The definitions to unfold when the example is evaluated.\<close>

lemmas eval_defs = combineRegistries_def combine_entry_def combine_def_def
  generateOpenAPIDocument_def generate_entry_def generate_def_def
  adjust_def alloc_def push_def assign_schema_path_def some_def add_if_missing_def
  same_entry_def rewritePath_def startsWith_def endsWith_def substring_1_def slice_0_minus1_def
  registerMount_def defs_of_def example_store_def Let_def

text \<open>
  Claim C9 on the example: after both compositions the router's registry still holds
  \<^verbatim>\<open>GET /users\<close>, and the base got a reference to a new object.
\<close>

theorem composition_frame_witness:
  "defs_of (combineRegistries stringify_example (\<lambda>md. md) 0
              (registerMount ''/api'' (Registry 1) []) example_store) 1
     = [PathDefinition Get ''/users'' ''router''] \<and>
   defs_of (generateOpenAPIDocument stringify_example (\<lambda>md. md) 0
              (registerMount ''/api'' (Registry 1) []) example_store) 1
     = [PathDefinition Get ''/users'' ''router''] \<and>
   definitions (generateOpenAPIDocument stringify_example (\<lambda>md. md) 0
              (registerMount ''/api'' (Registry 1) []) example_store) 0 = [0, 3]"
  using composition_frame [where stringify = stringify_example and reparse = "\<lambda>md. md"
      and base = 0 and mountRegistry = "registerMount ''/api'' (Registry 1) []"
      and st = example_store]
  by (simp add: eval_defs)

section \<open>\<^verbatim>\<open>combineRegistries\<close> on the definitions\<close>

lemma def_type_adjusted: "def_type (adjusted reparse mountPath d) = def_type d"
  by (cases d) simp_all

lemma def_name_adjusted: "def_name (adjusted reparse mountPath d) = def_name d"
  by (cases d) simp_all

lemma wf_store_push:
  "wf_store st \<Longrightarrow> a < length (objects st) \<Longrightarrow> wf_store (push base a st)"
  by (auto simp: wf_store_def push_def)

lemma defs_of_push:
  "defs_of (push base a st) base = defs_of st base @ [objects st ! a]"
  by (simp add: defs_of_def push_def)

lemma some_defs_of: "some pred base st = list_ex pred (defs_of st base)"
  by (simp add: some_def defs_of_def list_ex_iff)

lemma add_if_missing_value:
  "defs_of (add_if_missing stringify base a st) base
     = add_value stringify (objects st ! a) (defs_of st base)"
  by (simp add: add_if_missing_def add_value_def some_defs_of defs_of_push)

lemma wf_store_add_if_missing:
  "wf_store st \<Longrightarrow> a < length (objects st) \<Longrightarrow> wf_store (add_if_missing stringify base a st)"
  by (simp add: add_if_missing_def wf_store_push)

lemma objects_add_if_missing:
  "objects (add_if_missing stringify base a st) = objects st"
  by (simp add: add_if_missing_def push_def)

lemma adjust_path:
  assumes "def_type (objects st ! a) = TypePath"
  shows "adjust reparse mountPath a st
           = (length (objects st),
              st\<lparr>objects := objects st @ [adjusted reparse mountPath (objects st ! a)]\<rparr>)"
  using assms
  by (cases "objects st ! a") (simp_all add: adjust_def alloc_def assign_schema_path_def)

lemma defs_of_grow:
  assumes "wf_store st"
  shows "defs_of (st\<lparr>objects := objects st @ new\<rparr>) r = defs_of st r"
  using assms by (simp add: defs_of_def wf_store_def nth_append)

lemma wf_store_grow: "wf_store st \<Longrightarrow> wf_store (st\<lparr>objects := objects st @ new\<rparr>)"
  by (fastforce simp: wf_store_def)

lemma combine_def_value:
  assumes "wf_store st"
  shows "defs_of (combine_def stringify reparse base mountPath a st) base
           = combine_value stringify reparse mountPath (objects st ! a) (defs_of st base)"
proof (cases "def_type (objects st ! a) = TypePath")
  case True
  let ?st1 = "st\<lparr>objects := objects st @ [adjusted reparse mountPath (objects st ! a)]\<rparr>"
  have "defs_of ?st1 base = defs_of st base"
    using assms by (rule defs_of_grow)
  then show ?thesis
    using True
    by (simp add: combine_def_def combine_value_def adjust_path some_defs_of defs_of_push)
next
  case False
  then show ?thesis
    by (simp add: combine_def_def combine_value_def add_if_missing_value)
qed

lemma generate_def_value:
  assumes "wf_store st"
  shows "defs_of (generate_def stringify reparse base mountPath a st) base
           = generate_value stringify reparse mountPath (objects st ! a) (defs_of st base)"
proof (cases "def_type (objects st ! a) = TypePath")
  case True
  let ?st1 = "st\<lparr>objects := objects st @ [adjusted reparse mountPath (objects st ! a)]\<rparr>"
  have "defs_of ?st1 base = defs_of st base"
    using assms by (rule defs_of_grow)
  then show ?thesis
    using True
    by (simp add: generate_def_def generate_value_def adjust_path defs_of_push)
next
  case False
  then show ?thesis
    by (simp add: generate_def_def generate_value_def add_if_missing_value)
qed


lemma generate_def_always_pushes:
  assumes "wf_store st" and "objects st ! a = PathDefinition m p md"
  shows "defs_of (generate_def stringify reparse base mountPath a st) base
           = defs_of st base @ [PathDefinition m (rewritePath mountPath p) (reparse md)]"
  using assms by (simp add: generate_def_value generate_value_def)

lemma wf_store_combine_def:
  assumes "wf_store st" and "a < length (objects st)"
  shows "wf_store (combine_def stringify reparse base mountPath a st)"
proof (cases "def_type (objects st ! a) = TypePath")
  case True
  let ?st1 = "st\<lparr>objects := objects st @ [adjusted reparse mountPath (objects st ! a)]\<rparr>"
  have "wf_store ?st1"
    using assms(1) by (rule wf_store_grow)
  moreover have "length (objects st) < length (objects ?st1)"
    by simp
  ultimately have "wf_store (push base (length (objects st)) ?st1)"
    by (rule wf_store_push)
  with \<open>wf_store ?st1\<close> True show ?thesis
    by (simp add: combine_def_def adjust_path)
next
  case False
  with assms show ?thesis
    by (simp add: combine_def_def wf_store_add_if_missing)
qed

text \<open>A loop over references, seen on the definitions.\<close>

lemma frame_objects_nth:
  assumes "frame base st st'" and "a < length (objects st)"
  shows "objects st' ! a = objects st ! a" and "a < length (objects st')"
  using assms by (auto simp: frame_def nth_append)

lemma fold_value:
  assumes step: "\<And>a st. wf_store st \<Longrightarrow> P st \<Longrightarrow> a < length (objects st) \<Longrightarrow>
                   wf_store (f a st) \<and> P (f a st) \<and> frame base st (f a st) \<and>
                   defs_of (f a st) base = g (objects st ! a) (defs_of st base)"
    and "wf_store st" and "P st" and "\<forall>a \<in> set as. a < length (objects st)"
  shows "wf_store (fold f as st) \<and> P (fold f as st) \<and>
         defs_of (fold f as st) base = fold g (map ((!) (objects st)) as) (defs_of st base)"
  using assms(2,3,4)
proof (induction as arbitrary: st)
  case Nil
  then show ?case by simp
next
  case (Cons a as)
  from Cons.prems have a: "a < length (objects st)"
    by simp
  note s = step [OF Cons.prems(1,2) a]
  from s have fr: "frame base st (f a st)"
    by simp
  have valid: "\<forall>b \<in> set as. b < length (objects (f a st))"
    using Cons.prems(3) frame_objects_nth(2) [OF fr] by simp
  have same: "map ((!) (objects (f a st))) as = map ((!) (objects st)) as"
    using Cons.prems(3) frame_objects_nth(1) [OF fr] by simp
  from s have "wf_store (f a st)" and "P (f a st)"
    by simp_all
  from Cons.IH [OF this valid] s same show ?case
    by simp
qed

lemma nonempty_names_combine_def:
  assumes "nonempty_names st" and "a < length (objects st)"
  shows "nonempty_names (combine_def stringify reparse base mountPath a st)"
proof (cases "def_type (objects st ! a) = TypePath")
  case True
  from assms have "def_name (objects st ! a) \<noteq> Some []"
    by (simp add: nonempty_names_def)
  with assms(1) True show ?thesis
    by (auto simp: nonempty_names_def combine_def_def adjust_path push_def def_name_adjusted)
next
  case False
  with assms(1) show ?thesis
    by (simp add: nonempty_names_def combine_def_def objects_add_if_missing)
qed

lemma nonempty_names_add_if_missing:
  "nonempty_names st \<Longrightarrow> nonempty_names (add_if_missing stringify base a st)"
  by (simp add: nonempty_names_def objects_add_if_missing)

lemma step_add_if_missing:
  assumes "wf_store st" and "n \<longrightarrow> nonempty_names st" and "a < length (objects st)"
  shows "wf_store (add_if_missing stringify base a st) \<and>
         (n \<longrightarrow> nonempty_names (add_if_missing stringify base a st)) \<and>
         frame base st (add_if_missing stringify base a st) \<and>
         defs_of (add_if_missing stringify base a st) base
           = add_value stringify (objects st ! a) (defs_of st base)"
  using assms
  by (simp add: wf_store_add_if_missing frame_add_if_missing add_if_missing_value
      nonempty_names_add_if_missing)

lemma step_combine_def:
  assumes "wf_store st" and "n \<longrightarrow> nonempty_names st" and "a < length (objects st)"
  shows "wf_store (combine_def stringify reparse base mountPath a st) \<and>
         (n \<longrightarrow> nonempty_names (combine_def stringify reparse base mountPath a st)) \<and>
         frame base st (combine_def stringify reparse base mountPath a st) \<and>
         defs_of (combine_def stringify reparse base mountPath a st) base
           = combine_value stringify reparse mountPath (objects st ! a) (defs_of st base)"
  using assms
  by (simp add: wf_store_combine_def frame_combine_def combine_def_value
      nonempty_names_combine_def)

text \<open>The invariant.\<close>

lemma registry_invariant_snoc:
  "registry_invariant (ds @ [d])
     \<longleftrightarrow> registry_invariant ds \<and> \<not> list_ex (\<lambda>e. duplicate e d) ds"
  by (induction ds) (auto simp: list_ex_iff)

lemma duplicate_same_path:
  "def_type d = TypePath \<Longrightarrow> duplicate e d \<Longrightarrow> same_path d e"
  by (cases d; cases e) auto

lemma duplicate_same_entry:
  assumes "def_type d \<noteq> TypePath" and "def_name d \<noteq> Some []" and "duplicate e d"
  shows "same_entry stringify d e"
  using assms by (cases d; cases e) (auto simp: same_entry_def)

lemma combine_value_invariant:
  assumes "registry_invariant ds" and "def_name d \<noteq> Some []"
  shows "registry_invariant (combine_value stringify reparse mountPath d ds)"
proof (cases "def_type d = TypePath")
  case True
  then have "same_path (adjusted reparse mountPath d) e"
    if "duplicate e (adjusted reparse mountPath d)" for e
    using that duplicate_same_path [of "adjusted reparse mountPath d" e]
    by (simp add: def_type_adjusted)
  with assms(1) True show ?thesis
    by (auto simp: combine_value_def registry_invariant_snoc list_ex_iff)
next
  case False
  have "same_entry stringify d e" if "duplicate e d" for e
    using False assms(2) that by (rule duplicate_same_entry)
  with assms(1) False show ?thesis
    by (auto simp: combine_value_def add_value_def registry_invariant_snoc list_ex_iff)
qed

lemma fold_combine_value_invariant:
  assumes "registry_invariant ds" and "\<forall>d \<in> set xs. def_name d \<noteq> Some []"
  shows "registry_invariant (fold (combine_value stringify reparse mountPath) xs ds)"
  using assms by (induction xs arbitrary: ds) (simp_all add: combine_value_invariant)

text \<open>An entry of the ledger, seen on the definitions.\<close>

lemma combine_entry_value:
  assumes "wf_store st" and "n \<longrightarrow> nonempty_names st" and "registry entry = Registry r"
  shows "wf_store (combine_entry stringify reparse base entry st) \<and>
         (n \<longrightarrow> nonempty_names (combine_entry stringify reparse base entry st)) \<and>
         defs_of (combine_entry stringify reparse base entry st) base
           = (if path entry = ''/'' then fold (add_value stringify) (defs_of st r) (defs_of st base)
              else fold (combine_value stringify reparse (path entry)) (defs_of st r)
                     (defs_of st base))"
proof -
  have valid: "\<forall>a \<in> set (definitions st r). a < length (objects st)"
    using assms(1) by (simp add: wf_store_def)
  have ds: "map ((!) (objects st)) (definitions st r) = defs_of st r"
    by (simp add: defs_of_def)
  note root = fold_value [where f = "add_if_missing stringify base"
      and g = "add_value stringify" and base = base
      and P = "\<lambda>st. n \<longrightarrow> nonempty_names st",
      OF step_add_if_missing assms(1,2) valid]
  note general = fold_value [where f = "combine_def stringify reparse base (path entry)"
      and g = "combine_value stringify reparse (path entry)" and base = base
      and P = "\<lambda>st. n \<longrightarrow> nonempty_names st", OF step_combine_def assms(1,2) valid]
  show ?thesis
    using root general assms(3) ds by (simp add: combine_entry_def)
qed

lemma wf_store_combine_entry:
  assumes "wf_store st"
  shows "wf_store (combine_entry stringify reparse base entry st)"
  using assms combine_entry_value [where n = False, OF assms, of entry]
  by (cases "registry entry") (simp_all add: combine_entry_def)

lemma nonempty_names_combine_entry:
  assumes "wf_store st" and "nonempty_names st"
  shows "nonempty_names (combine_entry stringify reparse base entry st)"
  using assms combine_entry_value [where n = True, OF assms(1), of entry]
  by (cases "registry entry") (simp_all add: combine_entry_def)

lemma defs_of_in_objects:
  assumes "wf_store st" and "d \<in> set (defs_of st r)"
  shows "d \<in> set (objects st)"
  using assms by (auto simp: defs_of_def wf_store_def)

lemma combine_entry_invariant:
  assumes "wf_store st" and "nonempty_names st" and "registry_invariant (defs_of st base)"
    and "path entry \<noteq> ''/''"
  shows "registry_invariant (defs_of (combine_entry stringify reparse base entry st) base)"
proof (cases "registry entry")
  case (Registry r)
  have "\<forall>d \<in> set (defs_of st r). def_name d \<noteq> Some []"
    using assms(1,2) defs_of_in_objects [of st _ r] by (auto simp: nonempty_names_def)
  with assms(3) have "registry_invariant
      (fold (combine_value stringify reparse (path entry)) (defs_of st r) (defs_of st base))"
    by (rule fold_combine_value_invariant)
  with assms(4) show ?thesis
    using combine_entry_value [where n = False, OF assms(1) _ Registry, of stringify reparse base]
    by simp
qed (simp_all add: combine_entry_def assms)

lemma combineRegistries_preserves_invariant:
  assumes "wf_store st" and "nonempty_names st" and "registry_invariant (defs_of st base)"
    and "\<forall>entry \<in> set mountRegistry. path entry \<noteq> ''/''"
  shows "registry_invariant
           (defs_of (combineRegistries stringify reparse base mountRegistry st) base)"
  using assms unfolding combineRegistries_def
proof (induction mountRegistry arbitrary: st)
  case Nil
  then show ?case by simp
next
  case (Cons entry mountRegistry)
  let ?st1 = "combine_entry stringify reparse base entry st"
  have "wf_store ?st1" and "nonempty_names ?st1"
    using Cons.prems(1,2) by (simp_all add: wf_store_combine_entry nonempty_names_combine_entry)
  moreover have "registry_invariant (defs_of ?st1 base)"
    using Cons.prems by (simp add: combine_entry_invariant)
  ultimately show ?case
    using Cons.IH [of ?st1] Cons.prems(4) by simp
qed





















section \<open>The override with its base read through an accessor\<close>

text \<open>
  On a data property the loop is \<open>generateOpenAPIDocument\<close> as above; through the copying
  getter it changes no array of the store.
\<close>

lemma generate_def_via_DataProperty:
  "generate_def_via DataProperty stringify reparse base mountPath a st
     = generate_def stringify reparse base mountPath a st"
  by (simp add: generate_def_via_def generate_def_def push_via_def add_if_missing_def
      split: prod.splits)

lemma generateOpenAPIDocument_via_DataProperty:
  "generateOpenAPIDocument_via DataProperty stringify reparse base mountRegistry st
     = generateOpenAPIDocument stringify reparse base mountRegistry st"
proof -
  have d: "generate_def_via DataProperty stringify reparse base mountPath
          = generate_def stringify reparse base mountPath" for mountPath
    by (intro ext) (rule generate_def_via_DataProperty)
  have "generate_entry_via DataProperty stringify reparse base
               = generate_entry stringify reparse base"
    by (intro ext) (simp add: generate_entry_via_def generate_entry_def d
        split: registry_value.splits)
  then show ?thesis
    by (simp add: generateOpenAPIDocument_via_def generateOpenAPIDocument_def)
qed








section \<open>First registration wins, and a second processing adds nothing\<close>





section \<open>The composition on the example\<close>

text \<open>
  Claim C2: after a composition no two definitions of the base are duplicates, also for a
  mount at \<open>/\<close>. Registries \<open>0\<close>, \<open>1\<close> and \<open>2\<close> satisfy the invariant; after
  \<^verbatim>\<open>combineRegistries\<close> with registry \<open>2\<close> mounted at \<open>/\<close> the base has two
  \<^verbatim>\<open>GET /api/users\<close>, and so it has after \<^verbatim>\<open>generateOpenAPIDocument\<close> with registry \<open>1\<close>
  mounted at \<open>/api\<close>.
\<close>

theorem composition_breaks_invariant:
  "registry_invariant (defs_of example_store 0) \<and>
   registry_invariant (defs_of example_store 1) \<and>
   registry_invariant (defs_of example_store 2) \<and>
   defs_of (combineRegistries stringify_example (\<lambda>md. md) 0
              (registerMount ''/'' (Registry 2) []) example_store) 0
     = [PathDefinition Get ''/api/users'' ''app'', PathDefinition Get ''/api/users'' ''other''] \<and>
   \<not> registry_invariant
        (defs_of (combineRegistries stringify_example (\<lambda>md. md) 0
                    (registerMount ''/'' (Registry 2) []) example_store) 0) \<and>
   \<not> registry_invariant
        (defs_of (generateOpenAPIDocument stringify_example (\<lambda>md. md) 0
                    (registerMount ''/api'' (Registry 1) []) example_store) 0)"
  by (simp add: eval_defs)

text \<open>
  Claim C4: the rewritten path contains no \<open>//\<close>, for every mount path and every path of
  a sub-registry. The code strips one leading \<open>/\<close> of the path and one trailing \<open>/\<close> of the
  mount path, against its comment \<^verbatim>\<open>Ensure no double slashes\<close>: \<^verbatim>\<open>combineRegistries\<close> inserts
  \<^verbatim>\<open>GET /api//users\<close> for the path \<open>//users\<close> mounted at \<open>/api\<close>, and for the path
  \<open>/users\<close> mounted at \<open>/api//\<close>.
\<close>

theorem combineRegistries_double_slash:
  "defs_of (combineRegistries stringify_example (\<lambda>md. md) 0
              (registerMount ''/api'' (Registry 1) []) slash_store) 0
     = [PathDefinition Get ''/api//users'' ''double''] \<and>
   defs_of (combineRegistries stringify_example (\<lambda>md. md) 0
              (registerMount ''/api//'' (Registry 2) []) slash_store) 0
     = [PathDefinition Get ''/api//users'' ''single''] \<and>
   has_double_slash ''/api//users''"
  by (simp add: combineRegistries_def combine_entry_def combine_def_def
      adjust_def alloc_def push_def assign_schema_path_def some_def
      rewritePath_def startsWith_def endsWith_def substring_1_def slice_0_minus1_def
      registerMount_def defs_of_def slash_store_def Let_def)

end
